theory Spec2Isabelle
  imports Main "HOL-Library.AList"
begin

section \<open>Go runtime conventions shared by the two components\<close>

text \<open>
  A run-time panic of the Go program is a value of the model. The three panics that the
  modelled code can raise are the slice-bounds panic of \<^verbatim>\<open>key[:len(keyPrefix)]\<close>, the
  integer division by zero of \<^verbatim>\<open>elapsed / refillRate\<close> and the failed type assertion
  of \<^verbatim>\<open>cached.([]PostListItem)\<close>.
\<close>

datatype panic = SliceBoundsOutOfRange | IntegerDivideByZero | InterfaceConversion

datatype 'a outcome = Returns 'a | Panics panic

text \<open>
  Instants (\<^verbatim>\<open>time.Time\<close>) are readings of the process clock in nanoseconds, durations
  (\<^verbatim>\<open>time.Duration\<close>) are 64-bit counts of nanoseconds. Go's \<^verbatim>\<open>int\<close> is taken to be
  64 bits wide; sums and differences wrap around, \<^verbatim>\<open>/\<close> truncates toward zero, and
  \<^verbatim>\<open>Time.Sub\<close> saturates at the ends of the duration range.
\<close>

type_synonym Time = int
type_synonym Duration = int

definition minInt64 :: int where
  "minInt64 = - (2 ^ 63)"

definition maxInt64 :: int where
  "maxInt64 = 2 ^ 63 - 1"

definition wrap64 :: "int \<Rightarrow> int" where
  "wrap64 x = (x + 2 ^ 63) mod 2 ^ 64 - 2 ^ 63"

definition quo64 :: "int \<Rightarrow> int \<Rightarrow> int" where
  "quo64 a b = wrap64 (sgn a * sgn b * (\<bar>a\<bar> div \<bar>b\<bar>))"

definition Time_Sub :: "Time \<Rightarrow> Time \<Rightarrow> Duration" where
  "Time_Sub t u =
     (let d = t - u
      in if d < minInt64 then minInt64 else if maxInt64 < d then maxInt64 else d)"

definition Time_After :: "Time \<Rightarrow> Time \<Rightarrow> bool" where
  "Time_After t u = (u < t)"

definition Time_Add :: "Time \<Rightarrow> Duration \<Rightarrow> Time" where
  "Time_Add t d = t + d"

text \<open>\<^verbatim>\<open>fmt.Sprintf("%d", n)\<close>: the decimal digits of \<open>n\<close>, after a minus sign when \<open>n\<close> is negative.\<close>

function Sprintf_nat :: "nat \<Rightarrow> string" where
  "Sprintf_nat n =
     (if n < 10 then [''0123456789'' ! n]
      else Sprintf_nat (n div 10) @ [''0123456789'' ! (n mod 10)])"
  by pat_completeness auto
termination
  by (relation "measure id") auto

declare Sprintf_nat.simps [simp del]

definition Sprintf_d :: "int \<Rightarrow> string" where
  "Sprintf_d n = (if n < 0 then CHR ''-'' # Sprintf_nat (nat (- n)) else Sprintf_nat (nat n))"

section \<open>The query cache (server/queries/cached\_queries.go)\<close>

record 'v cacheItem =
  data :: 'v
  expiresAt :: Time

text \<open>
  The Go map \<^verbatim>\<open>items\<close> is an association list; the order of the list is the order in
  which a \<^verbatim>\<open>range\<close> loop of this run visits the keys (Go leaves that order open, and
  the theorems hold for every order). A Go map holds each key once.
\<close>

record 'v QueryCache =
  items :: "(string \<times> 'v cacheItem) list"
  ttl :: Duration

definition wf_items :: "'v QueryCache \<Rightarrow> bool" where
  "wf_items c = distinct (map fst (items c))"

definition NewQueryCache :: "Duration \<Rightarrow> 'v QueryCache" where
  "NewQueryCache d = \<lparr>items = [], ttl = d\<rparr>"

text \<open>\<^verbatim>\<open>Get\<close> returns \<open>(nil, false)\<close> as \<open>None\<close> and \<open>(item.data, true)\<close> as \<open>Some\<close>.\<close>

definition QueryCache_Get :: "Time \<Rightarrow> string \<Rightarrow> 'v QueryCache \<Rightarrow> 'v option" where
  "QueryCache_Get now key c =
     (case map_of (items c) key of
        None \<Rightarrow> None
      | Some item \<Rightarrow> if Time_After now (expiresAt item) then None else Some (data item))"

definition QueryCache_Set :: "Time \<Rightarrow> string \<Rightarrow> 'v \<Rightarrow> 'v QueryCache \<Rightarrow> 'v QueryCache" where
  "QueryCache_Set now key d c =
     c\<lparr>items := AList.update key \<lparr>data = d, expiresAt = Time_Add now (ttl c)\<rparr> (items c)\<rparr>"

text \<open>
  The loop of \<^verbatim>\<open>Invalidate\<close> over the keys. \<^verbatim>\<open>key[:len(keyPrefix)]\<close> panics when the
  key is shorter than the prefix; \<^verbatim>\<open>||\<close> evaluates it only for a non-empty prefix. The
  deferred unlock runs, and the map keeps the deletions made before the panic.
\<close>

fun Invalidate_range ::
  "string \<Rightarrow> string list \<Rightarrow> (string \<times> 'v cacheItem) list
     \<Rightarrow> unit outcome \<times> (string \<times> 'v cacheItem) list" where
  "Invalidate_range keyPrefix [] m = (Returns (), m)"
| "Invalidate_range keyPrefix (key # keys) m =
     (if length keyPrefix = 0 then Invalidate_range keyPrefix keys (AList.delete key m)
      else if length key < length keyPrefix then (Panics SliceBoundsOutOfRange, m)
      else if take (length keyPrefix) key = keyPrefix
        then Invalidate_range keyPrefix keys (AList.delete key m)
      else Invalidate_range keyPrefix keys m)"

definition QueryCache_Invalidate ::
  "string \<Rightarrow> 'v QueryCache \<Rightarrow> unit outcome \<times> 'v QueryCache" where
  "QueryCache_Invalidate keyPrefix c =
     (case Invalidate_range keyPrefix (map fst (items c)) (items c) of
        (r, m) \<Rightarrow> (r, c\<lparr>items := m\<rparr>))"

text \<open>One pass of the body of \<^verbatim>\<open>cleanup\<close>, run at each tick with \<open>now\<close> read once.\<close>

fun cleanup_range ::
  "Time \<Rightarrow> (string \<times> 'v cacheItem) list \<Rightarrow> (string \<times> 'v cacheItem) list
     \<Rightarrow> (string \<times> 'v cacheItem) list" where
  "cleanup_range now [] m = m"
| "cleanup_range now ((key, item) # rest) m =
     (if Time_After now (expiresAt item) then cleanup_range now rest (AList.delete key m)
      else cleanup_range now rest m)"

definition QueryCache_cleanup :: "Time \<Rightarrow> 'v QueryCache \<Rightarrow> 'v QueryCache" where
  "QueryCache_cleanup now c = c\<lparr>items := cleanup_range now (items c) (items c)\<rparr>"

section \<open>The cached query service\<close>

text \<open>
  The cache stores \<^verbatim>\<open>interface{}\<close> values; the service stores a slice of post list items,
  a pointer to a post detail or a slice of category summaries, and asserts the type it
  expects on a hit. The payload types are left open.
\<close>

datatype ('p, 'd, 's) cached =
  PostListItems "'p list" | PostDetailRef 'd | CategorySummaries "'s list"

text \<open>
  The wrapped \<^verbatim>\<open>PostQueryService\<close> method reads the database: it is a parameter
  \<open>queryService\<close> that maps the user id and the state \<open>w\<close> of the world outside the
  cache to its result (\<open>Inl\<close> the error, \<open>Inr\<close> the posts) and the world after the call.
  A method that does not call it returns \<open>w\<close> as it was. \<open>now\<close> is the clock reading of
  \<^verbatim>\<open>Get\<close>, \<open>now'\<close> the later one of \<^verbatim>\<open>Set\<close>. The only state of the service itself is
  its cache.
\<close>

definition GetAllPosts ::
  "(int \<Rightarrow> 'w \<Rightarrow> ('e + 'p list) \<times> 'w) \<Rightarrow> Time \<Rightarrow> Time \<Rightarrow> int
     \<Rightarrow> ('p, 'd, 's) cached QueryCache \<Rightarrow> 'w
     \<Rightarrow> ('e + 'p list) outcome \<times> ('p, 'd, 's) cached QueryCache \<times> 'w" where
  "GetAllPosts queryService now now' userID c w =
     (let cacheKey = ''posts_all_user_'' @ Sprintf_d userID
      in case QueryCache_Get now cacheKey c of
           Some (PostListItems posts) \<Rightarrow> (Returns (Inr posts), c, w)
         | Some _ \<Rightarrow> (Panics InterfaceConversion, c, w)
         | None \<Rightarrow>
            (case queryService userID w of
               (Inl err, w') \<Rightarrow> (Returns (Inl err), c, w')
             | (Inr posts, w') \<Rightarrow>
                 (Returns (Inr posts), QueryCache_Set now' cacheKey (PostListItems posts) c, w')))"

definition GetUserCreatedPosts ::
  "(int \<Rightarrow> 'w \<Rightarrow> ('e + 'p list) \<times> 'w) \<Rightarrow> Time \<Rightarrow> Time \<Rightarrow> int
     \<Rightarrow> ('p, 'd, 's) cached QueryCache \<Rightarrow> 'w
     \<Rightarrow> ('e + 'p list) outcome \<times> ('p, 'd, 's) cached QueryCache \<times> 'w" where
  "GetUserCreatedPosts queryService now now' userID c w =
     (let cacheKey = ''posts_created_user_'' @ Sprintf_d userID
      in case QueryCache_Get now cacheKey c of
           Some (PostListItems posts) \<Rightarrow> (Returns (Inr posts), c, w)
         | Some _ \<Rightarrow> (Panics InterfaceConversion, c, w)
         | None \<Rightarrow>
            (case queryService userID w of
               (Inl err, w') \<Rightarrow> (Returns (Inl err), c, w')
             | (Inr posts, w') \<Rightarrow>
                 (Returns (Inr posts), QueryCache_Set now' cacheKey (PostListItems posts) c, w')))"

definition GetUserLikedPosts ::
  "(int \<Rightarrow> 'w \<Rightarrow> ('e + 'p list) \<times> 'w) \<Rightarrow> Time \<Rightarrow> Time \<Rightarrow> int
     \<Rightarrow> ('p, 'd, 's) cached QueryCache \<Rightarrow> 'w
     \<Rightarrow> ('e + 'p list) outcome \<times> ('p, 'd, 's) cached QueryCache \<times> 'w" where
  "GetUserLikedPosts queryService now now' userID c w =
     (let cacheKey = ''posts_liked_user_'' @ Sprintf_d userID
      in case QueryCache_Get now cacheKey c of
           Some (PostListItems posts) \<Rightarrow> (Returns (Inr posts), c, w)
         | Some _ \<Rightarrow> (Panics InterfaceConversion, c, w)
         | None \<Rightarrow>
            (case queryService userID w of
               (Inl err, w') \<Rightarrow> (Returns (Inl err), c, w')
             | (Inr posts, w') \<Rightarrow>
                 (Returns (Inr posts), QueryCache_Set now' cacheKey (PostListItems posts) c, w')))"

text \<open>A panic of one \<^verbatim>\<open>Invalidate\<close> call leaves the method: the later calls do not run.\<close>

definition InvalidateUserCache ::
  "int \<Rightarrow> 'v QueryCache \<Rightarrow> unit outcome \<times> 'v QueryCache" where
  "InvalidateUserCache userID c =
     (case QueryCache_Invalidate (''user_'' @ Sprintf_d userID) c of
        (Panics p, c1) \<Rightarrow> (Panics p, c1)
      | (Returns _, c1) \<Rightarrow>
         (case QueryCache_Invalidate (''posts_created_user_'' @ Sprintf_d userID) c1 of
            (Panics p, c2) \<Rightarrow> (Panics p, c2)
          | (Returns _, c2) \<Rightarrow>
              QueryCache_Invalidate (''posts_liked_user_'' @ Sprintf_d userID) c2))"

section \<open>The rate limiter (server/middleware/ratelimit.go)\<close>

record visitor =
  tokens :: int
  lastRefill :: Time

record RateLimiter =
  visitors :: "string \<rightharpoonup> visitor"

definition NewRateLimiter :: RateLimiter where
  "NewRateLimiter = \<lparr>visitors = Map.empty\<rparr>"

definition min_go :: "int \<Rightarrow> int \<Rightarrow> int" where
  "min_go a b = (if a < b then a else b)"

definition tokensToAdd :: "Time \<Rightarrow> Duration \<Rightarrow> visitor \<Rightarrow> int" where
  "tokensToAdd now refillRate v = quo64 (Time_Sub now (lastRefill v)) refillRate"

text \<open>
  \<^verbatim>\<open>Allow\<close> reads the clock once, as \<open>now\<close>. \<open>v\<close> is a pointer into the map, so the
  assignments to its fields change the stored visitor. The division panics on a zero
  \<open>refillRate\<close>, before anything is assigned.
\<close>

definition Allow ::
  "Time \<Rightarrow> string \<Rightarrow> int \<Rightarrow> Duration \<Rightarrow> RateLimiter \<Rightarrow> bool outcome \<times> RateLimiter" where
  "Allow now key maxTokens refillRate rl =
     (case visitors rl key of
        None \<Rightarrow>
          (Returns True,
           rl\<lparr>visitors := (visitors rl)(key \<mapsto> \<lparr>tokens = wrap64 (maxTokens - 1), lastRefill = now\<rparr>)\<rparr>)
      | Some v \<Rightarrow>
          if refillRate = 0 then (Panics IntegerDivideByZero, rl)
          else
            let v1 = (if 0 < tokensToAdd now refillRate v
                      then v\<lparr>tokens := min_go (wrap64 (tokens v + tokensToAdd now refillRate v)) maxTokens,
                             lastRefill := now\<rparr>
                      else v)
            in if 0 < tokens v1
               then (Returns True,
                     rl\<lparr>visitors := (visitors rl)(key \<mapsto> v1\<lparr>tokens := wrap64 (tokens v1 - 1)\<rparr>)\<rparr>)
               else (Returns False, rl\<lparr>visitors := (visitors rl)(key \<mapsto> v1)\<rparr>))"

text \<open>
  The decision of the \<^verbatim>\<open>RateLimit\<close> middleware for one request whose client address is
  \<open>key\<close>: \<open>Returns True\<close> passes the request on, \<open>Returns False\<close> answers 429.
  \<^verbatim>\<open>window / time.Duration(maxRequests)\<close> panics on \<open>maxRequests = 0\<close>.
\<close>

definition Minute :: Duration where
  "Minute = 60 * 1000000000"

definition RateLimit ::
  "int \<Rightarrow> Duration \<Rightarrow> Time \<Rightarrow> string \<Rightarrow> RateLimiter \<Rightarrow> bool outcome \<times> RateLimiter" where
  "RateLimit maxRequests window now key rl =
     (if maxRequests = 0 then (Panics IntegerDivideByZero, rl)
      else Allow now key maxRequests (quo64 window maxRequests) rl)"

text \<open>
  A run of \<^verbatim>\<open>Allow\<close> calls, each with its clock reading, identity and refill interval;
  the call for identity \<open>key\<close> passes \<open>tier key\<close> as \<open>maxTokens\<close>. A call that panics
  leaves the limiter as it was and the run goes on, as the server does after the
  recovery middleware.
\<close>

fun Allow_run ::
  "(string \<Rightarrow> int) \<Rightarrow> (Time \<times> string \<times> Duration) list \<Rightarrow> RateLimiter
     \<Rightarrow> bool outcome list \<times> RateLimiter" where
  "Allow_run tier [] rl = ([], rl)"
| "Allow_run tier ((now, key, refillRate) # calls) rl =
     (case Allow now key (tier key) refillRate rl of
        (r, rl1) \<Rightarrow> (case Allow_run tier calls rl1 of (rs, rl2) \<Rightarrow> (r # rs, rl2)))"

section \<open>Lookups after the two loops of the cache\<close>

lemma Invalidate_range_Returns:
  "Invalidate_range p ks m = (Returns (), m') \<Longrightarrow>
   map_of m' k = (if k \<in> set ks \<and> take (length p) k = p then None else map_of m k)"
proof (induction ks arbitrary: m)
  case Nil
  then show ?case by simp
next
  case (Cons key ks)
  then show ?case
    by (auto simp: delete_conv' split: if_splits)
qed

lemma Invalidate_range_Panics:
  "fst (Invalidate_range p ks m) = Panics SliceBoundsOutOfRange \<longleftrightarrow>
   p \<noteq> [] \<and> (\<exists>key \<in> set ks. length key < length p)"
  by (induction ks arbitrary: m) auto

lemma cleanup_range_map_of:
  "map_of (cleanup_range now es m) k =
     (if \<exists>item. (k, item) \<in> set es \<and> Time_After now (expiresAt item) then None else map_of m k)"
proof (induction es arbitrary: m)
  case Nil
  then show ?case by simp
next
  case (Cons e es)
  obtain key item where e: "e = (key, item)" by (cases e)
  show ?case
    unfolding e by (auto simp: Cons.IH delete_conv')
qed

text \<open>Every operation keeps the keys of the store distinct.\<close>

lemma wf_items_New: "wf_items (NewQueryCache d)"
  by (simp add: wf_items_def NewQueryCache_def)

lemma wf_items_Set: "wf_items c \<Longrightarrow> wf_items (QueryCache_Set now key d c)"
  by (simp add: wf_items_def QueryCache_Set_def distinct_update)

lemma distinct_Invalidate_range:
  "distinct (map fst m) \<Longrightarrow> distinct (map fst (snd (Invalidate_range p ks m)))"
  by (induction ks arbitrary: m) (auto simp: distinct_delete)

lemma wf_items_Invalidate: "wf_items c \<Longrightarrow> wf_items (snd (QueryCache_Invalidate p c))"
  using distinct_Invalidate_range [of "items c" p "map fst (items c)"]
  by (cases "Invalidate_range p (map fst (items c)) (items c)")
     (simp add: wf_items_def QueryCache_Invalidate_def)

lemma distinct_cleanup_range:
  "distinct (map fst m) \<Longrightarrow> distinct (map fst (cleanup_range now es m))"
  by (induction es arbitrary: m) (auto simp: distinct_delete)

lemma wf_items_cleanup: "wf_items c \<Longrightarrow> wf_items (QueryCache_cleanup now c)"
  by (simp add: wf_items_def QueryCache_cleanup_def distinct_cleanup_range)

section \<open>Expiry and reclamation\<close>

text \<open>
  C2, as the code has it: \<^verbatim>\<open>Get\<close> compares with \<^verbatim>\<open>time.Now().After(item.expiresAt)\<close>, so
  an entry is not returned once the clock is strictly after \<open>expiresAt\<close>, whether the
  entry is still in the map or a reclamation pass (at any time \<open>t\<close>) has run over it.
\<close>

theorem Get_after_expiry_not_found:
  assumes "map_of (items c) key = Some item" and "expiresAt item < now"
  shows "QueryCache_Get now key c = None
       \<and> QueryCache_Get now key (QueryCache_cleanup t c) = None"
proof -
  have "map_of (cleanup_range t (items c) (items c)) key = None
        \<or> map_of (cleanup_range t (items c) (items c)) key = Some item"
    using assms(1) by (simp add: cleanup_range_map_of)
  then show ?thesis
    using assms by (auto simp: QueryCache_Get_def QueryCache_cleanup_def Time_After_def)
qed

text \<open>An entry that expired at 100 is not found at 101, before and after a pass at 50.\<close>

theorem Get_after_expiry_not_found_witness:
  "map_of (items \<lparr>items = [(''posts_all_user_1'', \<lparr>data = (7::nat), expiresAt = 100\<rparr>)], ttl = 30\<rparr>)
       ''posts_all_user_1'' = Some \<lparr>data = 7, expiresAt = 100\<rparr>
   \<and> expiresAt \<lparr>data = (7::nat), expiresAt = 100\<rparr> < 101
   \<and> QueryCache_Get 101 ''posts_all_user_1''
        \<lparr>items = [(''posts_all_user_1'', \<lparr>data = (7::nat), expiresAt = 100\<rparr>)], ttl = 30\<rparr> = None
   \<and> QueryCache_Get 101 ''posts_all_user_1''
        (QueryCache_cleanup 50 \<lparr>items = [(''posts_all_user_1'', \<lparr>data = (7::nat), expiresAt = 100\<rparr>)], ttl = 30\<rparr>)
       = None"
proof -
  have h1: "map_of (items \<lparr>items = [(''posts_all_user_1'', \<lparr>data = (7::nat), expiresAt = 100\<rparr>)], ttl = 30\<rparr>)
       ''posts_all_user_1'' = Some \<lparr>data = 7, expiresAt = 100\<rparr>"
    by simp
  have h2: "expiresAt \<lparr>data = (7::nat), expiresAt = 100\<rparr> < 101"
    by simp
  show ?thesis
    using h1 h2 Get_after_expiry_not_found [OF h1 h2, of 50] by simp
qed

text \<open>
  C2 as worded (not returned once \<open>now \<ge> expiresAt\<close>) fails at the expiry instant itself:
  an entry set at 70 with a time-to-live of 30 expires at 100 and is still returned at 100.
\<close>

theorem Get_at_expiry_instant_found:
  "QueryCache_Get 100 ''posts_all_user_1''
     (QueryCache_Set 70 ''posts_all_user_1'' (7::nat) (NewQueryCache 30)) = Some 7"
  by (simp add: QueryCache_Get_def QueryCache_Set_def NewQueryCache_def Time_After_def Time_Add_def)

text \<open>
  C9: a reclamation pass run at a time \<open>t\<close> not later than the read does not change what
  \<^verbatim>\<open>Get\<close> returns, for any key.
\<close>

theorem cleanup_preserves_Get:
  assumes "wf_items c" and "t \<le> now"
  shows "QueryCache_Get now key (QueryCache_cleanup t c) = QueryCache_Get now key c"
proof (cases "map_of (items c) key")
  case None
  then show ?thesis
    by (simp add: QueryCache_Get_def QueryCache_cleanup_def cleanup_range_map_of)
next
  case (Some item)
  have uniq: "\<And>item'. (key, item') \<in> set (items c) \<Longrightarrow> item' = item"
    using assms(1) Some by (simp add: wf_items_def)
  have mem: "(key, item) \<in> set (items c)"
    using Some by (rule map_of_SomeD)
  show ?thesis
  proof (cases "Time_After t (expiresAt item)")
    case True
    then have "Time_After now (expiresAt item)"
      using assms(2) by (simp add: Time_After_def)
    moreover have "map_of (cleanup_range t (items c) (items c)) key = None"
      using True mem by (auto simp: cleanup_range_map_of)
    ultimately show ?thesis
      using Some by (simp add: QueryCache_Get_def QueryCache_cleanup_def)
  next
    case False
    then have "map_of (cleanup_range t (items c) (items c)) key = Some item"
      using uniq Some by (auto simp: cleanup_range_map_of)
    then show ?thesis
      using Some by (simp add: QueryCache_Get_def QueryCache_cleanup_def)
  qed
qed

text \<open>A pass at 50 removes the entry that expired at 40; the read at 60 of the other is the same.\<close>

theorem cleanup_preserves_Get_witness:
  "wf_items \<lparr>items = [(''posts_all_user_1'', \<lparr>data = (7::nat), expiresAt = 40\<rparr>),
                       (''posts_all_user_2'', \<lparr>data = 8, expiresAt = 100\<rparr>)], ttl = 30\<rparr>
   \<and> (50 :: int) \<le> 60
   \<and> QueryCache_Get 60 ''posts_all_user_2''
        (QueryCache_cleanup 50 \<lparr>items = [(''posts_all_user_1'', \<lparr>data = (7::nat), expiresAt = 40\<rparr>),
                       (''posts_all_user_2'', \<lparr>data = 8, expiresAt = 100\<rparr>)], ttl = 30\<rparr>)
     = QueryCache_Get 60 ''posts_all_user_2''
        \<lparr>items = [(''posts_all_user_1'', \<lparr>data = (7::nat), expiresAt = 40\<rparr>),
                       (''posts_all_user_2'', \<lparr>data = 8, expiresAt = 100\<rparr>)], ttl = 30\<rparr>"
proof -
  have h1: "wf_items \<lparr>items = [(''posts_all_user_1'', \<lparr>data = (7::nat), expiresAt = 40\<rparr>),
                       (''posts_all_user_2'', \<lparr>data = 8, expiresAt = 100\<rparr>)], ttl = 30\<rparr>"
    by (simp add: wf_items_def)
  have h2: "(50 :: int) \<le> 60" by simp
  show ?thesis
    using h1 h2 cleanup_preserves_Get [OF h1 h2, of "''posts_all_user_2''"] by simp
qed

section \<open>Prefix invalidation\<close>

text \<open>
  When \<^verbatim>\<open>Invalidate\<close> returns, exactly the keys that start with the prefix are gone and
  every other key holds what it held. It panics exactly when the prefix is not empty
  and some stored key is shorter than the prefix.
\<close>

lemma Invalidate_Returns_exact:
  assumes "QueryCache_Invalidate p c = (Returns (), c')"
  shows "map_of (items c') k = (if take (length p) k = p then None else map_of (items c) k)"
proof -
  from assms obtain m' where m': "Invalidate_range p (map fst (items c)) (items c) = (Returns (), m')"
    and c': "items c' = m'"
    by (auto simp: QueryCache_Invalidate_def split: prod.splits)
  have "k \<notin> set (map fst (items c)) \<Longrightarrow> map_of (items c) k = None"
    by (simp add: map_of_eq_None_iff)
  with Invalidate_range_Returns [OF m', of k] show ?thesis
    by (auto simp: c')
qed

lemma Invalidate_Panics_iff:
  "fst (QueryCache_Invalidate p c) = Panics SliceBoundsOutOfRange \<longleftrightarrow>
     p \<noteq> [] \<and> (\<exists>key \<in> fst ` set (items c). length key < length p)"
  using Invalidate_range_Panics [of p "map fst (items c)" "items c"]
  by (cases "Invalidate_range p (map fst (items c)) (items c)")
     (simp add: QueryCache_Invalidate_def)

lemma InvalidateUserCache_Returns:
  assumes run: "InvalidateUserCache u c = (Returns (), c')"
    and pre: "take (length (Sprintf_d u)) (Sprintf_d w) = Sprintf_d u"
  shows "map_of (items c') (''posts_created_user_'' @ Sprintf_d w) = None
       \<and> map_of (items c') (''posts_liked_user_'' @ Sprintf_d w) = None"
proof -
  from run obtain c1 c2 where
      s2: "QueryCache_Invalidate (''posts_created_user_'' @ Sprintf_d u) c1 = (Returns (), c2)"
    and s3: "QueryCache_Invalidate (''posts_liked_user_'' @ Sprintf_d u) c2 = (Returns (), c')"
    by (auto simp: InvalidateUserCache_def split: prod.splits outcome.splits)
  have created: "map_of (items c2) (''posts_created_user_'' @ Sprintf_d w) = None"
    using Invalidate_Returns_exact [OF s2, of "''posts_created_user_'' @ Sprintf_d w"] pre
    by simp
  have "map_of (items c') (''posts_created_user_'' @ Sprintf_d w) = None"
    using Invalidate_Returns_exact [OF s3, of "''posts_created_user_'' @ Sprintf_d w"] created
    by (simp split: if_splits)
  moreover have "map_of (items c') (''posts_liked_user_'' @ Sprintf_d w) = None"
    using Invalidate_Returns_exact [OF s3, of "''posts_liked_user_'' @ Sprintf_d w"] pre
    by simp
  ultimately show ?thesis by simp
qed

text \<open>
  C1 says that \<^verbatim>\<open>Invalidate\<close> completes normally also when a stored key is shorter than
  the prefix. The code does not: with the 14-character key \<^verbatim>\<open>categories_all\<close> in the
  store, invalidating the 20-character prefix \<^verbatim>\<open>posts_created_user_5\<close> panics at
  \<^verbatim>\<open>key[:len(keyPrefix)]\<close>.
\<close>

theorem Invalidate_short_key_panics:
  "QueryCache_Invalidate ''posts_created_user_5''
     \<lparr>items = [(''categories_all'',
                \<lparr>data = (CategorySummaries [1] :: (nat, nat, nat) cached), expiresAt = 300\<rparr>)],
      ttl = 300\<rparr>
   = (Panics SliceBoundsOutOfRange,
      \<lparr>items = [(''categories_all'', \<lparr>data = CategorySummaries [1], expiresAt = 300\<rparr>)],
       ttl = 300\<rparr>)"
  by (simp add: QueryCache_Invalidate_def)

text \<open>
  C5 says that \<^verbatim>\<open>Invalidate\<close> removes every entry whose key starts with the prefix, for
  every prefix. With a shorter key visited first the loop panics before it reaches the
  matching entry: \<^verbatim>\<open>posts_liked_user_7\<close> stays in the store and \<^verbatim>\<open>Get\<close> still returns it.
\<close>

theorem Invalidate_panic_keeps_matching_entry:
  "QueryCache_Invalidate ''posts_liked_user_7''
     \<lparr>items = [(''categories_all'',
                \<lparr>data = (CategorySummaries [1] :: (nat, nat, nat) cached), expiresAt = 300\<rparr>),
               (''posts_liked_user_7'', \<lparr>data = PostListItems [2], expiresAt = 300\<rparr>)],
      ttl = 300\<rparr>
   = (Panics SliceBoundsOutOfRange,
      \<lparr>items = [(''categories_all'', \<lparr>data = CategorySummaries [1], expiresAt = 300\<rparr>),
               (''posts_liked_user_7'', \<lparr>data = PostListItems [2], expiresAt = 300\<rparr>)],
      ttl = 300\<rparr>)
   \<and> QueryCache_Get 10 ''posts_liked_user_7''
        (snd (QueryCache_Invalidate ''posts_liked_user_7''
          \<lparr>items = [(''categories_all'',
                     \<lparr>data = (CategorySummaries [1] :: (nat, nat, nat) cached), expiresAt = 300\<rparr>),
                    (''posts_liked_user_7'', \<lparr>data = PostListItems [2], expiresAt = 300\<rparr>)],
           ttl = 300\<rparr>))
      = Some (PostListItems [2])"
  by (simp add: QueryCache_Invalidate_def QueryCache_Get_def Time_After_def)

text \<open>
  C10 says that \<^verbatim>\<open>InvalidateUserCache(5)\<close> also removes the created-posts and liked-posts
  entries of user 55. After \<^verbatim>\<open>GetUserCreatedPosts(55)\<close> and \<^verbatim>\<open>GetUserLikedPosts(55)\<close> on a
  new cache the store holds both entries; \<^verbatim>\<open>InvalidateUserCache(5)\<close> then removes the
  created-posts entry and panics on the 19-character key \<^verbatim>\<open>posts_liked_user_55\<close>, which
  is shorter than the 20-character prefix \<^verbatim>\<open>posts_created_user_5\<close>. The third
  \<^verbatim>\<open>Invalidate\<close> never runs and the liked-posts entry of user 55 is still returned.
  When the loop visits the two keys in the other order it panics at once and removes
  nothing.
\<close>

theorem InvalidateUserCache_panics_before_liked:
  "fst (snd (GetUserLikedPosts (\<lambda>u n. (Inr [u + 200] :: unit + int list, Suc n)) 2 3 55
      (fst (snd (GetUserCreatedPosts (\<lambda>u n. (Inr [u + 100] :: unit + int list, Suc n)) 0 1 55
          (NewQueryCache 300 :: (int, nat, nat) cached QueryCache) (0::nat)))) (1::nat)))
   = \<lparr>items = [(''posts_created_user_55'', \<lparr>data = PostListItems [155], expiresAt = 301\<rparr>),
               (''posts_liked_user_55'', \<lparr>data = PostListItems [255], expiresAt = 303\<rparr>)],
      ttl = 300\<rparr>
   \<and> InvalidateUserCache 5
       \<lparr>items = [(''posts_created_user_55'',
                  \<lparr>data = (PostListItems [155] :: (int, nat, nat) cached), expiresAt = 301\<rparr>),
                 (''posts_liked_user_55'', \<lparr>data = PostListItems [255], expiresAt = 303\<rparr>)],
        ttl = 300\<rparr>
     = (Panics SliceBoundsOutOfRange,
        \<lparr>items = [(''posts_liked_user_55'', \<lparr>data = PostListItems [255], expiresAt = 303\<rparr>)],
         ttl = 300\<rparr>)
   \<and> QueryCache_Get 4 ''posts_liked_user_55''
       (snd (InvalidateUserCache 5
          \<lparr>items = [(''posts_created_user_55'',
                     \<lparr>data = (PostListItems [155] :: (int, nat, nat) cached), expiresAt = 301\<rparr>),
                    (''posts_liked_user_55'', \<lparr>data = PostListItems [255], expiresAt = 303\<rparr>)],
           ttl = 300\<rparr>))
     = Some (PostListItems [255])
   \<and> InvalidateUserCache 5
       \<lparr>items = [(''posts_liked_user_55'',
                  \<lparr>data = (PostListItems [255] :: (int, nat, nat) cached), expiresAt = 303\<rparr>),
                 (''posts_created_user_55'', \<lparr>data = PostListItems [155], expiresAt = 301\<rparr>)],
        ttl = 300\<rparr>
     = (Panics SliceBoundsOutOfRange,
        \<lparr>items = [(''posts_liked_user_55'', \<lparr>data = PostListItems [255], expiresAt = 303\<rparr>),
                  (''posts_created_user_55'', \<lparr>data = PostListItems [155], expiresAt = 301\<rparr>)],
         ttl = 300\<rparr>)"
  by (simp add: GetUserLikedPosts_def GetUserCreatedPosts_def NewQueryCache_def QueryCache_Get_def
      QueryCache_Set_def InvalidateUserCache_def QueryCache_Invalidate_def Sprintf_d_def
      Sprintf_nat.simps Time_After_def Time_Add_def)

section \<open>The cache-aside read path\<close>



text \<open>
  C4: on a miss, an error of the wrapped query is returned as it is and the cache is
  unchanged; a call that follows (its clock reading not earlier) calls the wrapped query
  again: its result and the world it leaves are those of that query call.
\<close>

theorem GetAllPosts_error_not_cached:
  fixes c :: "('p, 'd, 's) cached QueryCache"
    and queryService :: "int \<Rightarrow> 'w \<Rightarrow> ('e + 'p list) \<times> 'w"
  assumes miss: "QueryCache_Get now (''posts_all_user_'' @ Sprintf_d userID) c = None"
    and err: "queryService userID w = (Inl err, w')"
  shows "GetAllPosts queryService now now' userID c w = (Returns (Inl err), c, w')
     \<and> (\<forall>(queryService2 :: int \<Rightarrow> 'w \<Rightarrow> ('e + 'p list) \<times> 'w) t t'. now \<le> t \<longrightarrow>
           fst (GetAllPosts queryService2 t t' userID c w') = Returns (fst (queryService2 userID w'))
         \<and> snd (snd (GetAllPosts queryService2 t t' userID c w')) = snd (queryService2 userID w'))"
proof -
  have later: "QueryCache_Get t (''posts_all_user_'' @ Sprintf_d userID) c = None" if "now \<le> t" for t
    using miss that
    by (auto simp: QueryCache_Get_def Time_After_def split: option.splits if_splits)
  show ?thesis
    using miss err later
    by (auto simp: GetAllPosts_def split: prod.splits sum.splits)
qed

text \<open>
  The query fails at 10 and again at 12; the world counts the query calls: 1 after the
  first call of \<^verbatim>\<open>GetAllPosts\<close>, 2 after the second.
\<close>

theorem GetAllPosts_error_not_cached_witness:
  "QueryCache_Get 10 (''posts_all_user_'' @ Sprintf_d 7)
      (NewQueryCache 30 :: (int, nat, nat) cached QueryCache) = None
   \<and> (\<lambda>u n. (Inl ''database is locked'' :: string + int list, Suc n)) 7 (0::nat)
       = (Inl ''database is locked'', 1)
   \<and> GetAllPosts (\<lambda>u n. (Inl ''database is locked'' :: string + int list, Suc n)) 10 11 7
         (NewQueryCache 30 :: (int, nat, nat) cached QueryCache) (0::nat)
     = (Returns (Inl ''database is locked''), NewQueryCache 30, 1)
   \<and> (10::int) \<le> 12
   \<and> fst (GetAllPosts (\<lambda>u n. (Inl ''database is locked'' :: string + int list, Suc n)) 12 13 7
         (NewQueryCache 30 :: (int, nat, nat) cached QueryCache) (1::nat))
      = Returns (Inl ''database is locked'')
   \<and> snd (snd (GetAllPosts (\<lambda>u n. (Inl ''database is locked'' :: string + int list, Suc n)) 12 13 7
         (NewQueryCache 30 :: (int, nat, nat) cached QueryCache) (1::nat))) = 2"
proof -
  let ?q = "\<lambda>(u::int) (n::nat). (Inl ''database is locked'' :: string + int list, Suc n)"
  let ?c0 = "NewQueryCache 30 :: (int, nat, nat) cached QueryCache"
  have miss: "QueryCache_Get 10 (''posts_all_user_'' @ Sprintf_d 7) ?c0 = None"
    by (simp add: QueryCache_Get_def NewQueryCache_def)
  have fails: "?q 7 0 = (Inl ''database is locked'', 1)"
    by simp
  have later: "(10::int) \<le> 12"
    by simp
  note first = GetAllPosts_error_not_cached [where queryService = ?q and now' = 11,
      OF miss fails, THEN conjunct1]
  note second = GetAllPosts_error_not_cached [where queryService = ?q and now' = 11,
      OF miss fails, THEN conjunct2, rule_format, OF later, of ?q 13]
  from miss fails first later second show ?thesis
    by simp
qed

section \<open>Arithmetic of the refill\<close>

lemma wrap64_id: "minInt64 \<le> x \<Longrightarrow> x \<le> maxInt64 \<Longrightarrow> wrap64 x = x"
  by (simp add: wrap64_def minInt64_def maxInt64_def)

lemma Time_Sub_range: "minInt64 \<le> Time_Sub t u \<and> Time_Sub t u \<le> maxInt64"
  by (simp add: Time_Sub_def Let_def minInt64_def maxInt64_def)


lemma quo_abs: "\<bar>sgn a * sgn b * (\<bar>a\<bar> div \<bar>b\<bar>)\<bar> \<le> \<bar>a\<bar> div \<bar>b\<bar>" for a b :: int
  by (cases "a = 0"; cases "b = 0") (simp_all add: abs_mult abs_sgn_eq pos_imp_zdiv_nonneg_iff)

lemma quo_abs_le: "\<bar>sgn a * sgn b * (\<bar>a\<bar> div \<bar>b\<bar>)\<bar> \<le> \<bar>a\<bar>" for a b :: int
proof (cases "a = 0")
  case True
  then show ?thesis by simp
next
  case False
  then have "\<bar>a\<bar> div \<bar>b\<bar> \<le> \<bar>a\<bar>"
    by (intro int_div_le_self) simp
  with quo_abs [of a b] show ?thesis by linarith
qed

lemma quo_nonpos: "a < b \<Longrightarrow> 0 < b \<Longrightarrow> sgn a * sgn b * (\<bar>a\<bar> div \<bar>b\<bar>) \<le> 0" for a b :: int
  by (cases "a < 0") (simp_all add: sgn_if mult_le_0_iff pos_imp_zdiv_nonneg_iff)

text \<open>Less than one refill interval after the last refill, no token is added.\<close>

lemma tokensToAdd_within:
  assumes "0 < r" and "now - lastRefill v < r"
  shows "tokensToAdd now r v \<le> 0"
proof -
  let ?e = "Time_Sub now (lastRefill v)"
  let ?q = "sgn ?e * sgn r * (\<bar>?e\<bar> div \<bar>r\<bar>)"
  have lt: "?e < r"
    using assms by (auto simp: Time_Sub_def Let_def minInt64_def maxInt64_def)
  have q0: "?q \<le> 0" using lt assms(1) by (rule quo_nonpos)
  have "\<bar>?q\<bar> \<le> \<bar>?e\<bar>" by (rule quo_abs_le)
  moreover have "\<bar>?e\<bar> \<le> 2 ^ 63"
    using Time_Sub_range [of now "lastRefill v"]
    by (simp add: minInt64_def maxInt64_def abs_le_iff)
  ultimately have "minInt64 \<le> ?q" by (simp add: minInt64_def)
  with q0 have "wrap64 ?q = ?q" by (intro wrap64_id) (simp_all add: maxInt64_def)
  with q0 show ?thesis by (simp add: tokensToAdd_def quo64_def)
qed


text \<open>With a refill interval of two nanoseconds or more, at most \<open>2\<^sup>6\<^sup>2\<close> tokens are added.\<close>

lemma tokensToAdd_le_half:
  assumes "2 \<le> \<bar>r\<bar>"
  shows "tokensToAdd now r v \<le> 2 ^ 62"
proof -
  let ?e = "Time_Sub now (lastRefill v)"
  let ?q = "sgn ?e * sgn r * (\<bar>?e\<bar> div \<bar>r\<bar>)"
  have "\<bar>?e\<bar> \<le> 2 ^ 63"
    using Time_Sub_range [of now "lastRefill v"]
    by (simp add: minInt64_def maxInt64_def abs_le_iff)
  then have "\<bar>?e\<bar> div \<bar>r\<bar> \<le> 2 ^ 63 div \<bar>r\<bar>"
    using assms by (intro zdiv_mono1) simp_all
  also have "\<dots> \<le> 2 ^ 63 div 2"
    using assms by (intro zdiv_mono2) simp_all
  finally have "\<bar>?e\<bar> div \<bar>r\<bar> \<le> 2 ^ 62" by simp
  with quo_abs [of ?e r] have q: "\<bar>?q\<bar> \<le> 2 ^ 62" by linarith
  then have "wrap64 ?q = ?q"
    by (intro wrap64_id) (simp_all add: minInt64_def maxInt64_def abs_le_iff)
  with q show ?thesis
    by (simp add: tokensToAdd_def quo64_def abs_le_iff)
qed

lemma refillRate_5_per_minute: "quo64 Minute 5 = 12000000000"
  by (simp add: quo64_def Minute_def wrap64_def)

lemma RateLimit_5_per_minute:
  "RateLimit 5 Minute now key rl = Allow now key 5 12000000000 rl"
  by (simp add: RateLimit_def refillRate_5_per_minute)

section \<open>One call of Allow\<close>


text \<open>
  A call for a known visitor whose count is not negative, under a maximum of at least
  one and with no overflow of the refill sum: it admits and stores a count between
  zero and the maximum, or it rejects, and then nothing was refilled and the limiter is
  as it was.
\<close>

lemma Allow_existing:
  assumes v: "visitors rl key = Some v"
    and r: "r \<noteq> 0"
    and m: "1 \<le> maxTokens" "maxTokens \<le> maxInt64"
    and t: "0 \<le> tokens v" "tokens v \<le> maxInt64"
    and ov: "tokens v + tokensToAdd now r v \<le> maxInt64"
  obtains (admit) v' where
      "Allow now key maxTokens r rl = (Returns True, rl\<lparr>visitors := (visitors rl)(key \<mapsto> v')\<rparr>)"
      "0 \<le> tokens v'" "tokens v' < max (tokens v) maxTokens"
      "min (tokens v) maxTokens - 1 \<le> tokens v'"
      "lastRefill v' = now \<or> lastRefill v' = lastRefill v"
    | (reject) "Allow now key maxTokens r rl = (Returns False, rl)" "tokens v = 0"
      "tokensToAdd now r v \<le> 0"
proof (cases "0 < tokensToAdd now r v")
  case True
  let ?s = "tokens v + tokensToAdd now r v"
  have s: "wrap64 ?s = ?s"
    using True t ov by (intro wrap64_id) (simp_all add: minInt64_def)
  let ?n = "min_go ?s maxTokens"
  have n: "1 \<le> ?n" "?n \<le> maxTokens" "min (tokens v) maxTokens \<le> ?n"
    using True t m by (simp_all add: min_go_def)
  then have w: "wrap64 (?n - 1) = ?n - 1"
    using m by (intro wrap64_id) (simp_all add: minInt64_def)
  have "Allow now key maxTokens r rl =
        (Returns True, rl\<lparr>visitors := (visitors rl)(key \<mapsto> v\<lparr>lastRefill := now, tokens := ?n - 1\<rparr>)\<rparr>)"
    using v r True n(1) by (simp add: Allow_def s w)
  then show ?thesis
    using n by (intro admit [of "v\<lparr>lastRefill := now, tokens := ?n - 1\<rparr>"]) simp_all
next
  case False
  show ?thesis
  proof (cases "0 < tokens v")
    case True
    then have w: "wrap64 (tokens v - 1) = tokens v - 1"
      using t by (intro wrap64_id) (simp_all add: minInt64_def)
    have "Allow now key maxTokens r rl =
          (Returns True, rl\<lparr>visitors := (visitors rl)(key \<mapsto> v\<lparr>tokens := tokens v - 1\<rparr>)\<rparr>)"
      using v r False True by (simp add: Allow_def w)
    then show ?thesis
      using True m by (intro admit [of "v\<lparr>tokens := tokens v - 1\<rparr>"]) simp_all
  next
    case empty: False
    have "(visitors rl)(key \<mapsto> v) = visitors rl"
      using v by (simp add: map_upd_triv)
    then have "Allow now key maxTokens r rl = (Returns False, rl)"
      using v r False empty by (simp add: Allow_def)
    then show ?thesis
      using empty False t by (intro reject) simp_all
  qed
qed

lemma Allow_no_refill:
  assumes "0 < r" and "now - lastRefill v < r" and "0 \<le> tokens v" and "tokens v \<le> maxInt64"
  shows "Allow now key maxTokens r \<lparr>visitors = m(key \<mapsto> v)\<rparr> =
           (if 0 < tokens v
            then (Returns True, \<lparr>visitors = m(key \<mapsto> v\<lparr>tokens := tokens v - 1\<rparr>)\<rparr>)
            else (Returns False, \<lparr>visitors = m(key \<mapsto> v)\<rparr>))"
proof -
  have "tokensToAdd now r v \<le> 0"
    using assms(1,2) by (rule tokensToAdd_within)
  moreover have "0 < tokens v \<Longrightarrow> wrap64 (tokens v - 1) = tokens v - 1"
    using assms(4) by (intro wrap64_id) (simp_all add: minInt64_def)
  ultimately show ?thesis
    using assms(1) by (simp add: Allow_def)
qed

section \<open>Runs of Allow\<close>



text \<open>A visitor that holds at least as many tokens as calls follow is admitted each time.\<close>

lemma Allow_run_admits:
  assumes "1 \<le> tier key" "tier key < 2 ^ 62" "2 \<le> \<bar>r\<bar>"
  shows "visitors rl key = Some v \<Longrightarrow> int (length ts) \<le> tokens v \<Longrightarrow> tokens v \<le> tier key \<Longrightarrow>
         fst (Allow_run tier (map (\<lambda>t. (t, key, r)) ts) rl) = replicate (length ts) (Returns True)"
proof (induction ts arbitrary: rl v)
  case Nil
  then show ?case by simp
next
  case (Cons t ts)
  have r: "r \<noteq> 0" using assms(3) by auto
  have m: "1 \<le> tier key" "tier key \<le> maxInt64"
    using assms by (simp_all add: maxInt64_def)
  have tk: "0 \<le> tokens v" "tokens v \<le> maxInt64"
    using Cons.prems assms by (simp_all add: maxInt64_def)
  have "tokensToAdd t r v \<le> 2 ^ 62"
    using assms(3) by (rule tokensToAdd_le_half)
  then have ov: "tokens v + tokensToAdd t r v \<le> maxInt64"
    using Cons.prems(3) assms(2) by (simp add: maxInt64_def)
  from Cons.prems(1) r m tk ov show ?case
  proof (cases rule: Allow_existing [where now = t])
    case (admit v')
    have "visitors (rl\<lparr>visitors := (visitors rl)(key \<mapsto> v')\<rparr>) key = Some v'" by simp
    moreover have "int (length ts) \<le> tokens v'" "tokens v' \<le> tier key"
      using admit(3,4) Cons.prems(2,3) by simp_all
    ultimately have
      "fst (Allow_run tier (map (\<lambda>t. (t, key, r)) ts) (rl\<lparr>visitors := (visitors rl)(key \<mapsto> v')\<rparr>))
        = replicate (length ts) (Returns True)"
      by (rule Cons.IH)
    then show ?thesis
      using admit(1) by (auto split: prod.splits)
  next
    case reject
    then show ?thesis using Cons.prems(2) by simp
  qed
qed

text \<open>
  C6, as the code has it: with \<open>maxTokens = 5\<close> and the refill interval of a one-minute
  window (\<^verbatim>\<open>window / maxRequests\<close>, 12 seconds) the first five calls of a new identity
  return true, whenever they are made; the sixth returns false when the five calls after
  the first are each made less than one refill interval after the first.
\<close>

theorem Allow_five_then_reject_within_interval:
  fixes key :: string and t0 t1 t2 t3 t4 t5 :: Time
  shows "fst (Allow_run (\<lambda>_. 5)
           [(t0, key, quo64 Minute 5), (t1, key, quo64 Minute 5), (t2, key, quo64 Minute 5),
            (t3, key, quo64 Minute 5), (t4, key, quo64 Minute 5)] NewRateLimiter)
         = [Returns True, Returns True, Returns True, Returns True, Returns True]
       \<and> (t1 - t0 < quo64 Minute 5 \<and> t2 - t0 < quo64 Minute 5 \<and> t3 - t0 < quo64 Minute 5 \<and>
          t4 - t0 < quo64 Minute 5 \<and> t5 - t0 < quo64 Minute 5 \<longrightarrow>
          fst (Allow_run (\<lambda>_. 5)
           [(t0, key, quo64 Minute 5), (t1, key, quo64 Minute 5), (t2, key, quo64 Minute 5),
            (t3, key, quo64 Minute 5), (t4, key, quo64 Minute 5), (t5, key, quo64 Minute 5)]
           NewRateLimiter)
          = [Returns True, Returns True, Returns True, Returns True, Returns True, Returns False])"
proof
  let ?rl = "NewRateLimiter\<lparr>visitors := (visitors NewRateLimiter)(key \<mapsto> \<lparr>tokens = 4, lastRefill = t0\<rparr>)\<rparr>"
  have first: "Allow t0 key 5 12000000000 NewRateLimiter = (Returns True, ?rl)"
    by (simp add: Allow_def NewRateLimiter_def wrap64_def)
  have "fst (Allow_run (\<lambda>_. 5) (map (\<lambda>t. (t, key, 12000000000)) [t1, t2, t3, t4]) ?rl)
        = replicate (length [t1, t2, t3, t4]) (Returns True)"
    by (rule Allow_run_admits [where v = "\<lparr>tokens = 4, lastRefill = t0\<rparr>"]) simp_all
  then show "fst (Allow_run (\<lambda>_. 5)
           [(t0, key, quo64 Minute 5), (t1, key, quo64 Minute 5), (t2, key, quo64 Minute 5),
            (t3, key, quo64 Minute 5), (t4, key, quo64 Minute 5)] NewRateLimiter)
         = [Returns True, Returns True, Returns True, Returns True, Returns True]"
    using first by (simp add: refillRate_5_per_minute split: prod.splits)
next
  show "t1 - t0 < quo64 Minute 5 \<and> t2 - t0 < quo64 Minute 5 \<and> t3 - t0 < quo64 Minute 5 \<and>
          t4 - t0 < quo64 Minute 5 \<and> t5 - t0 < quo64 Minute 5 \<longrightarrow>
          fst (Allow_run (\<lambda>_. 5)
           [(t0, key, quo64 Minute 5), (t1, key, quo64 Minute 5), (t2, key, quo64 Minute 5),
            (t3, key, quo64 Minute 5), (t4, key, quo64 Minute 5), (t5, key, quo64 Minute 5)]
           NewRateLimiter)
          = [Returns True, Returns True, Returns True, Returns True, Returns True, Returns False]"
  proof
    assume within: "t1 - t0 < quo64 Minute 5 \<and> t2 - t0 < quo64 Minute 5 \<and> t3 - t0 < quo64 Minute 5 \<and>
          t4 - t0 < quo64 Minute 5 \<and> t5 - t0 < quo64 Minute 5"
    have first: "Allow t0 key 5 12000000000 NewRateLimiter
        = (Returns True, \<lparr>visitors = Map.empty(key \<mapsto> \<lparr>tokens = 4, lastRefill = t0\<rparr>)\<rparr>)"
      by (simp add: Allow_def NewRateLimiter_def wrap64_def)
    show "fst (Allow_run (\<lambda>_. 5)
           [(t0, key, quo64 Minute 5), (t1, key, quo64 Minute 5), (t2, key, quo64 Minute 5),
            (t3, key, quo64 Minute 5), (t4, key, quo64 Minute 5), (t5, key, quo64 Minute 5)]
           NewRateLimiter)
          = [Returns True, Returns True, Returns True, Returns True, Returns True, Returns False]"
      using within
      by (simp add: refillRate_5_per_minute first Allow_no_refill maxInt64_def)
  qed
qed

text \<open>Six calls one second apart: five are admitted and the sixth is rejected.\<close>

theorem Allow_five_then_reject_within_interval_witness:
  "(1000000000::int) - 0 < quo64 Minute 5 \<and> (2000000000::int) - 0 < quo64 Minute 5
   \<and> (3000000000::int) - 0 < quo64 Minute 5 \<and> (4000000000::int) - 0 < quo64 Minute 5
   \<and> (5000000000::int) - 0 < quo64 Minute 5
   \<and> fst (Allow_run (\<lambda>_. 5)
           [(0, ''203.0.113.7'', quo64 Minute 5), (1000000000, ''203.0.113.7'', quo64 Minute 5),
            (2000000000, ''203.0.113.7'', quo64 Minute 5), (3000000000, ''203.0.113.7'', quo64 Minute 5),
            (4000000000, ''203.0.113.7'', quo64 Minute 5), (5000000000, ''203.0.113.7'', quo64 Minute 5)]
           NewRateLimiter)
       = [Returns True, Returns True, Returns True, Returns True, Returns True, Returns False]"
proof -
  have h: "(1000000000::int) - 0 < quo64 Minute 5 \<and> (2000000000::int) - 0 < quo64 Minute 5
   \<and> (3000000000::int) - 0 < quo64 Minute 5 \<and> (4000000000::int) - 0 < quo64 Minute 5
   \<and> (5000000000::int) - 0 < quo64 Minute 5"
    by (simp add: refillRate_5_per_minute)
  from Allow_five_then_reject_within_interval [where key = "''203.0.113.7''" and ?t0.0 = 0
      and ?t1.0 = 1000000000 and ?t2.0 = 2000000000 and ?t3.0 = 3000000000
      and ?t4.0 = 4000000000 and ?t5.0 = 5000000000] h
  show ?thesis by blast
qed

text \<open>
  C6 as worded (the sixth call within the same minute returns false) fails: six calls
  11 seconds apart all fall within one minute, the third and the fifth each refill one
  token, and the sixth call, 55 seconds after the first, is admitted.
\<close>

theorem Allow_sixth_call_admitted_after_refill:
  "fst (Allow_run (\<lambda>_. 5)
     [(0, ''203.0.113.7'', quo64 Minute 5), (11000000000, ''203.0.113.7'', quo64 Minute 5),
      (22000000000, ''203.0.113.7'', quo64 Minute 5), (33000000000, ''203.0.113.7'', quo64 Minute 5),
      (44000000000, ''203.0.113.7'', quo64 Minute 5), (55000000000, ''203.0.113.7'', quo64 Minute 5)]
     NewRateLimiter)
   = [Returns True, Returns True, Returns True, Returns True, Returns True, Returns True]"
  by (simp add: Allow_def NewRateLimiter_def tokensToAdd_def quo64_def wrap64_def Time_Sub_def
      min_go_def Minute_def minInt64_def maxInt64_def)







section \<open>Outside the side conditions\<close>

text \<open>
  One limiter shared by two tiers, as the routes do with the public tier (100 a minute)
  and the login tier (5 a minute): an address first seen on a public route holds 98
  tokens after its first login request, more than the login maximum.
\<close>

lemma Allow_shared_limiter_exceeds_tier:
  "fst (Allow 1000000000 ''203.0.113.7'' 5 12000000000
     (snd (Allow 0 ''203.0.113.7'' 100 600000000 NewRateLimiter))) = Returns True
   \<and> visitors (snd (Allow 1000000000 ''203.0.113.7'' 5 12000000000
     (snd (Allow 0 ''203.0.113.7'' 100 600000000 NewRateLimiter)))) ''203.0.113.7''
     = Some \<lparr>tokens = 98, lastRefill = 0\<rparr>"
  by (simp add: Allow_def NewRateLimiter_def tokensToAdd_def quo64_def wrap64_def Time_Sub_def
      min_go_def minInt64_def maxInt64_def)

text \<open>
  A refill interval of one nanosecond and a clock reading at the end of the 64-bit
  range: \<^verbatim>\<open>v.tokens+tokensToAdd\<close> wraps around, the stored count is negative and the
  rejected call has changed the visitor.
\<close>

lemma Allow_refill_sum_overflows:
  "fst (Allow 9223372036854775807 ''203.0.113.7'' 5 1
     (snd (Allow 0 ''203.0.113.7'' 5 1 NewRateLimiter))) = Returns False
   \<and> visitors (snd (Allow 0 ''203.0.113.7'' 5 1 NewRateLimiter)) ''203.0.113.7''
     = Some \<lparr>tokens = 4, lastRefill = 0\<rparr>
   \<and> visitors (snd (Allow 9223372036854775807 ''203.0.113.7'' 5 1
     (snd (Allow 0 ''203.0.113.7'' 5 1 NewRateLimiter)))) ''203.0.113.7''
     = Some \<lparr>tokens = - 9223372036854775805, lastRefill = 9223372036854775807\<rparr>"
  by (simp add: Allow_def NewRateLimiter_def tokensToAdd_def quo64_def wrap64_def Time_Sub_def
      min_go_def minInt64_def maxInt64_def)

end
